theory Spec2Isabelle
  imports Complex_Main "HOL-Library.AList"
begin

section \<open>Python dictionaries\<close>

text \<open>
  A Python \<^verbatim>\<open>dict\<close> is an association list with pairwise distinct keys, kept in
  insertion order. \<^const>\<open>AList.update\<close> is the assignment \<^verbatim>\<open>d[k] = v\<close>: it replaces the
  value in place when the key is present and appends the pair otherwise. \<^const>\<open>map_of\<close> is
  the lookup, \<open>map fst\<close> the key view.
\<close>

type_synonym ('k, 'v) dict = "('k \<times> 'v) list"

definition dict_get :: "('k, 'v) dict \<Rightarrow> 'k \<Rightarrow> 'v \<Rightarrow> 'v" where
  \<comment> \<open>\<^verbatim>\<open>d.get(k, default)\<close>\<close>
  "dict_get d k dflt = (case map_of d k of None \<Rightarrow> dflt | Some v \<Rightarrow> v)"

definition dict_keys :: "('k, 'v) dict \<Rightarrow> 'k list" where
  "dict_keys d = map fst d"

section \<open>Python strings\<close>

text \<open>
  Strings are lists of 8-bit characters and the notes are taken to be ASCII text:
  \<^verbatim>\<open>str.lower()\<close> maps \<open>A\<close>..\<open>Z\<close> to \<open>a\<close>..\<open>z\<close> and leaves every other character alone,
  \<^verbatim>\<open>str.strip()\<close> removes the leading and trailing characters for which \<^verbatim>\<open>str.isspace()\<close>
  holds (space, the control characters \<open>0x09\<close>..\<open>0x0D\<close> and the separators \<open>0x1C\<close>..\<open>0x1F\<close>).
\<close>

definition lower_char :: "char \<Rightarrow> char" where
  "lower_char c =
     (let n = (of_char c :: nat) in if 65 \<le> n \<and> n \<le> 90 then char_of (n + 32) else c)"

definition lower :: "string \<Rightarrow> string" where
  "lower s = map lower_char s"

definition isspace :: "char \<Rightarrow> bool" where
  "isspace c =
     (let n = (of_char c :: nat) in n = 32 \<or> (9 \<le> n \<and> n \<le> 13) \<or> (28 \<le> n \<and> n \<le> 31))"

definition strip :: "string \<Rightarrow> string" where
  "strip s = rev (dropWhile isspace (rev (dropWhile isspace s)))"

section \<open>The annotated document (spaCy \<^verbatim>\<open>Doc\<close>)\<close>

text \<open>
  The tokenizer, sentence splitter and entity recogniser are external: a document is
  whatever they produced. A token has its text, its trailing whitespace and its
  sentence-start flag; an entity span has its token range, label and text. The
  extension attribute \<^verbatim>\<open>doc._.sections\<close> is the field \<open>sections\<close>, \<open>None\<close> while the
  extension is not registered (\<^verbatim>\<open>hasattr(doc._, "sections")\<close> is false).
\<close>

record token =
  token_text :: string
  token_whitespace :: string
  is_sent_start :: bool

record entity =
  ent_start :: nat
  ent_end :: nat
  ent_label :: string
  ent_text :: string

record doc_section =
  sec_title :: string
  sec_start :: nat
  sec_end :: "int option"

record doc =
  tokens :: "token list"
  ents :: "entity list"
  sections :: "doc_section list option"

definition text_with_ws :: "token list \<Rightarrow> string" where
  "text_with_ws ts = concat (map (\<lambda>t. token_text t @ token_whitespace t) ts)"

definition span_text :: "token list \<Rightarrow> string" where
  \<comment> \<open>\<^verbatim>\<open>Span.text\<close>: the tokens with their whitespace, less the whitespace after the last one\<close>
  "span_text ts =
     (let txt = text_with_ws ts
      in if ts \<noteq> [] \<and> token_whitespace (last ts) \<noteq> [] then butlast txt else txt)"

definition doc_slice :: "doc \<Rightarrow> int \<Rightarrow> int \<Rightarrow> token list" where
  \<comment> \<open>\<^verbatim>\<open>doc[start:stop]\<close>: negative bounds count from the end, both are clamped\<close>
  "doc_slice d start stop =
     (let n = int (length (tokens d));
          s = min n (max 0 (if start < 0 then start + n else start));
          e = min n (max s (if stop < 0 then stop + n else stop))
      in take (nat (e - s)) (drop (nat s) (tokens d)))"

definition sent_end :: "doc \<Rightarrow> nat \<Rightarrow> nat" where
  \<comment> \<open>one past the last token of the sentence that starts at token \<open>i\<close>\<close>
  "sent_end d i =
     (case find (\<lambda>j. is_sent_start (tokens d ! j)) [Suc i ..< length (tokens d)] of
        Some j \<Rightarrow> j
      | None \<Rightarrow> length (tokens d))"

definition sent_text :: "doc \<Rightarrow> nat \<Rightarrow> string" where
  \<comment> \<open>\<^verbatim>\<open>token.sent.text\<close> for the sentence-initial token \<open>i\<close>\<close>
  "sent_text d i = span_text (doc_slice d (int i) (int (sent_end d i)))"

datatype py_error = TypeError | ValueError | NotImplementedError | IOError

section \<open>NLPProcessor (nlp\_pipeline.py)\<close>

text \<open>
  \<^verbatim>\<open>
  sections = []
  pattern = re.compile(r'^(history of present illness|physical exam|assessment and plan|
                           medications|impression|labs|diagnosis):?$', re.I)
  for i, token in enumerate(doc):
      if token.is_sent_start:
          sent_text = token.sent.text.strip().lower()
          if pattern.match(sent_text):
              if sections:
                  sections[-1]['end'] = i - 1
              sections.append({'title': sent_text, 'start': i, 'end': None})
  if sections:
      sections[-1]['end'] = len(doc) - 1
  Doc.set_extension("sections", default=[], force=True)
  doc._.sections = sections
  return doc
  \<close>
\<close>

definition headers :: "string list" where
  "headers = [''history of present illness'', ''physical exam'', ''assessment and plan'',
              ''medications'', ''impression'', ''labs'', ''diagnosis'']"

definition pattern_match :: "string \<Rightarrow> bool" where
  \<comment> \<open>the regular expression, ignoring case; \<open>$\<close> also matches before a final newline\<close>
  "pattern_match s =
     (let t = lower s
      in list_ex (\<lambda>h. t = h \<or> t = h @ '':'' \<or> t = h @ [CHR 0x0A] \<or> t = h @ '':'' @ [CHR 0x0A])
           headers)"

definition close_section :: "doc_section list \<Rightarrow> int \<Rightarrow> doc_section list" where
  \<comment> \<open>\<^verbatim>\<open>if sections: sections[-1]['end'] = e\<close>\<close>
  "close_section secs e =
     (if secs \<noteq> [] then butlast secs @ [(last secs)\<lparr>sec_end := Some e\<rparr>] else secs)"

definition seg_step :: "doc \<Rightarrow> nat \<Rightarrow> token \<Rightarrow> doc_section list \<Rightarrow> doc_section list" where
  "seg_step d i tok secs =
     (if is_sent_start tok then
        (let sent_text = lower (strip (sent_text d i))
         in if pattern_match sent_text
            then close_section secs (int i - 1)
                   @ [\<lparr>sec_title = sent_text, sec_start = i, sec_end = None\<rparr>]
            else secs)
      else secs)"

fun seg_loop :: "doc \<Rightarrow> nat \<Rightarrow> token list \<Rightarrow> doc_section list \<Rightarrow> doc_section list" where
  "seg_loop d i [] secs = secs"
| "seg_loop d i (tok # toks) secs = seg_loop d (Suc i) toks (seg_step d i tok secs)"

definition segment :: "doc \<Rightarrow> doc_section list" where
  "segment d = close_section (seg_loop d 0 (tokens d) []) (int (length (tokens d)) - 1)"

definition section_segmenter :: "doc \<Rightarrow> doc" where
  "section_segmenter d = d\<lparr>sections := Some (segment d)\<rparr>"

text \<open>
  \<^verbatim>\<open>
  def extract_section_text(self, doc, section_title):
      if not hasattr(doc._, "sections"):
          return None
      for sec in doc._.sections:
          if sec['title'].lower() == section_title.lower():
              span = doc[sec['start']:sec['end'] + 1]
              return span.text
      return None
  \<close>
  \<^verbatim>\<open>sec['end'] + 1\<close> raises \<^verbatim>\<open>TypeError\<close> on a section whose end is still \<^verbatim>\<open>None\<close>.
\<close>

definition extract_section_text :: "doc \<Rightarrow> string \<Rightarrow> py_error + string option" where
  "extract_section_text d section_title =
     (case sections d of
        None \<Rightarrow> Inr None
      | Some secs \<Rightarrow>
          (case find (\<lambda>sec. lower (sec_title sec) = lower section_title) secs of
             None \<Rightarrow> Inr None
           | Some sec \<Rightarrow>
               (case sec_end sec of
                  None \<Rightarrow> Inl TypeError
                | Some e \<Rightarrow> Inr (Some (span_text (doc_slice d (int (sec_start sec)) (e + 1)))))))"

section \<open>ValenceDetector (phenotyping\_module.py)\<close>

text \<open>
  \<^verbatim>\<open>
  def detect(self, doc: Doc) -> Dict[str, int]:
      results = {}
      for ent in doc.ents:
          key = ent.text.lower()
          results[key] = self.lexicon.get(key, 0)
      return results
  \<close>
\<close>

type_synonym detection_map = "(string, int) dict"
type_synonym rule_set = "(string, string list) dict"

definition detect :: "(string, int) dict \<Rightarrow> doc \<Rightarrow> detection_map" where
  "detect lexicon d =
     fold (\<lambda>ent results. let key = lower (ent_text ent)
                          in AList.update key (dict_get lexicon key 0) results)
          (ents d) []"

section \<open>Python floats\<close>

text \<open>
  A Python \<^verbatim>\<open>float\<close> and a \<^verbatim>\<open>numpy.float64\<close> are IEEE 754 binary64 numbers. A finite one is
  a real number \<open>m * 2 ^ e\<close> with 53 significant bits, and every arithmetic operation
  returns the exact result rounded to the nearest such number, ties to the even
  significand. \<open>round64\<close> is that rounding: \<open>float_exponent x\<close> is the exponent of the
  leading bit of \<open>x\<close>, the spacing of the floats around \<open>x\<close> is \<open>2 ^ (float_exponent x - 52)\<close>,
  and below \<open>2 ^ - 1022\<close> the spacing stays \<open>2 ^ - 1074\<close>. Overflow to infinity is not
  part of the model; the numbers rounded here are means of integers and small sums.
\<close>

fun log2_floor :: "nat \<Rightarrow> nat" where
  "log2_floor n = (if n < 2 then 0 else Suc (log2_floor (n div 2)))"

definition pow2 :: "int \<Rightarrow> real" where
  "pow2 e = (if 0 \<le> e then 2 ^ nat e else 1 / 2 ^ nat (- e))"

definition float_exponent :: "real \<Rightarrow> int" where
  \<comment> \<open>the \<open>e\<close> with \<open>2 ^ e \<le> \<bar>x\<bar> < 2 ^ (e + 1)\<close>, for \<open>x \<noteq> 0\<close>\<close>
  "float_exponent x =
     (if 1 \<le> \<bar>x\<bar> then int (log2_floor (nat \<lfloor>\<bar>x\<bar>\<rfloor>))
      else - int (log2_floor (nat (\<lceil>1 / \<bar>x\<bar>\<rceil> - 1))) - 1)"

definition round_half_even :: "real \<Rightarrow> int" where
  "round_half_even y =
     (let f = \<lfloor>y\<rfloor>; d = y - of_int f
      in if d < 1 / 2 then f else if 1 / 2 < d then f + 1 else if even f then f else f + 1)"

definition round64 :: "real \<Rightarrow> real" where
  "round64 x =
     (if x = 0 then 0
      else (let u = pow2 (max (float_exponent x) (- 1022) - 52)
            in of_int (round_half_even (x / u)) * u))"

section \<open>PhenotypingEngine (phenotyping\_module.py)\<close>

text \<open>
  \<^verbatim>\<open>
  def tag(self, detected_tokens: Dict[str, int]) -> Dict[str, float]:
      grouped = defaultdict(list)
      for group, keywords in self.rules.items():
          for kw in keywords:
              if kw in detected_tokens:
                  grouped[group].append(detected_tokens[kw])
      output = {}
      for group, vals in grouped.items():
          if vals:
              output[group] = (np.mean(vals) + 1)/2
          else:
              output[group] = 0.0
      return output
  \<close>
  The scores are floats. \<^verbatim>\<open>np.mean\<close> of a list of integers adds them up in float64 and
  divides the sum by their number; the sum of integers is exact in float64 as long as it
  stays below \<open>2 ^ 53\<close> in magnitude, as it does for polarity values, so the model rounds
  the quotient of the exact sum. The addition of 1 and the division by 2 round in turn.
\<close>

definition grouped_append :: "string \<Rightarrow> int \<Rightarrow> (string, int list) dict \<Rightarrow> (string, int list) dict" where
  \<comment> \<open>\<^verbatim>\<open>grouped[group].append(v)\<close> on a \<^verbatim>\<open>defaultdict(list)\<close>: a missing key starts from \<open>[]\<close>\<close>
  "grouped_append grp v grouped = AList.update grp (dict_get grouped grp [] @ [v]) grouped"

definition tag_keywords ::
  "detection_map \<Rightarrow> string \<Rightarrow> string list \<Rightarrow> (string, int list) dict \<Rightarrow> (string, int list) dict" where
  "tag_keywords detected_tokens grp keywords grouped =
     fold (\<lambda>kw g. case map_of detected_tokens kw of
                     Some v \<Rightarrow> grouped_append grp v g
                   | None \<Rightarrow> g) keywords grouped"

definition tag_grouped :: "rule_set \<Rightarrow> detection_map \<Rightarrow> (string, int list) dict" where
  "tag_grouped rules detected_tokens =
     fold (\<lambda>(grp, keywords) g. tag_keywords detected_tokens grp keywords g) rules []"

definition np_mean :: "int list \<Rightarrow> real" where
  "np_mean vals = round64 (real_of_int (sum_list vals) / real (length vals))"

definition tag_score :: "int list \<Rightarrow> real" where
  "tag_score vals = (if vals \<noteq> [] then round64 (round64 (np_mean vals + 1) / 2) else 0)"

definition tag_output :: "(string, int list) dict \<Rightarrow> (string, real) dict" where
  "tag_output grouped =
     fold (\<lambda>(grp, vals) output. AList.update grp (tag_score vals) output) grouped []"

definition tag :: "rule_set \<Rightarrow> detection_map \<Rightarrow> (string, real) dict" where
  "tag rules detected_tokens = tag_output (tag_grouped rules detected_tokens)"


section \<open>DbWriter (db\_writer.py)\<close>

text \<open>
  \<^verbatim>\<open>
  def write(self, data):
      if not data:
          raise ValueError("No data provided for writing.")
      try:
          df = pd.DataFrame(data)
          if df.empty:
              raise ValueError("DataFrame is empty after conversion from data.")
          if self.file_format == "csv":
              df.to_csv(self.output_path, index=self.index)
          else:
              raise NotImplementedError(...)
      except Exception as e:
          self.logger.error(...)
          raise
  \<close>
  A record is a dictionary from column names to cells. \<^verbatim>\<open>DataFrame.to_csv\<close> and the file
  system behind it are external: \<open>to_csv\<close> is a parameter that takes the path, the index
  flag, the rows and the file system, and returns the error it raised, if any, with the
  file system it left. A frame built from a list of dictionaries has one row per
  dictionary and one column per key, and is \<^verbatim>\<open>empty\<close> when it has no row or no column.
  \<open>file_format\<close> is the attribute as the constructor stored it, in lower case. The
  handler logs and re-raises, so the error leaves \<^verbatim>\<open>write\<close> unchanged.
\<close>

datatype cell = Str string | Num real

type_synonym row = "(string, cell) dict"

record db_writer =
  output_path :: string
  file_format :: string
  index :: bool
  overwrite :: bool

type_synonym 'fs csv_writer = "string \<Rightarrow> bool \<Rightarrow> row list \<Rightarrow> 'fs \<Rightarrow> py_error option \<times> 'fs"

definition df_empty :: "row list \<Rightarrow> bool" where
  "df_empty data = (data = [] \<or> concat (map dict_keys data) = [])"

definition dbwriter_write :: "'fs csv_writer \<Rightarrow> db_writer \<Rightarrow> row list \<Rightarrow> 'fs \<Rightarrow> py_error option \<times> 'fs" where
  "dbwriter_write to_csv w data fs =
     (if data = [] then (Some ValueError, fs)
      else if df_empty data then (Some ValueError, fs)
      else if file_format w = ''csv'' then to_csv (output_path w) (index w) data fs
      else (Some NotImplementedError, fs))"

section \<open>ClinicalPhenotypingPipeline (phenotyping\_module.py)\<close>

text \<open>
  \<^verbatim>\<open>
  def run(self):
      notes = self.reader.read_notes()
      structured = self.reader.read_structured()
      phenotype_summaries = []
      for note in notes:
          doc = self.nlp.process_note(note['note_text'])
          detections = self.valence.detect(doc)
          pheno_scores = self.pheno.tag(detections)
          phenotype_summaries.append({'patient_id': note['patient_id'], **pheno_scores})
      self.writer.write(phenotype_summaries)
  \<close>
  The rows read by the reader are the argument \<open>notes\<close>; \<open>nlp\<close> is the annotator
  (\<^verbatim>\<open>process_note\<close> only calls it). The writer of this module converts the list to a frame
  and calls \<^verbatim>\<open>to_csv(self.output_path, index=False)\<close> with no check of its own.
\<close>

record note_row =
  patient_id :: string
  note_text :: string

definition summary :: "(string \<Rightarrow> doc) \<Rightarrow> (string, int) dict \<Rightarrow> rule_set \<Rightarrow> note_row \<Rightarrow> row" where
  \<comment> \<open>the dictionary \<^verbatim>\<open>{'patient_id': note['patient_id'], **pheno_scores}\<close>\<close>
  "summary nlp lexicon rules n =
     (let d = nlp (note_text n);
          detections = detect lexicon d;
          pheno_scores = tag rules detections
      in fold (\<lambda>(grp, score) r. AList.update grp (Num score) r) pheno_scores
           [(''patient_id'', Str (patient_id n))])"

definition phenotype_summaries ::
  "(string \<Rightarrow> doc) \<Rightarrow> (string, int) dict \<Rightarrow> rule_set \<Rightarrow> note_row list \<Rightarrow> row list" where
  "phenotype_summaries nlp lexicon rules notes =
     fold (\<lambda>n summaries. summaries @ [summary nlp lexicon rules n]) notes []"

definition run ::
  "'fs csv_writer \<Rightarrow> (string \<Rightarrow> doc) \<Rightarrow> (string, int) dict \<Rightarrow> rule_set \<Rightarrow> string \<Rightarrow> note_row list \<Rightarrow> 'fs
     \<Rightarrow> py_error option \<times> 'fs" where
  "run to_csv nlp lexicon rules output notes fs =
     to_csv output False (phenotype_summaries nlp lexicon rules notes) fs"

section \<open>Example inputs\<close>

definition lexicon_example :: "(string, int) dict" where
  "lexicon_example = [(''fever'', 1), (''no fever'', - 1), (''cough'', 1), (''no cough'', - 1)]"

definition rules_example :: rule_set where
  "rules_example = [(''INFECTION'', [''fever'', ''cough''])]"



definition tok :: "string \<Rightarrow> string \<Rightarrow> bool \<Rightarrow> token" where
  "tok t ws s = \<lparr>token_text = t, token_whitespace = ws, is_sent_start = s\<rparr>"

definition headache_doc :: doc where
  \<comment> \<open>\<^verbatim>\<open>Patient reports headache.\<close> with the single entity \<^verbatim>\<open>headache\<close>\<close>
  "headache_doc =
     \<lparr>tokens = [tok ''Patient'' '' '' True, tok ''reports'' '' '' False,
                tok ''headache'' [] False, tok ''.'' [] False],
      ents = [\<lparr>ent_start = 2, ent_end = 3, ent_label = ''ENTITY'', ent_text = ''headache''\<rparr>],
      sections = None\<rparr>"

definition medications_doc :: doc where
  \<comment> \<open>\<^verbatim>\<open>Medications:\nAspirin daily.\nLabs\nNormal.\<close>\<close>
  "medications_doc =
     \<lparr>tokens = [tok ''Medications'' [] True, tok '':'' [] False, tok [CHR 0x0A] [] False,
                tok ''Aspirin'' '' '' True, tok ''daily'' [] False, tok ''.'' [] False,
                tok [CHR 0x0A] [] False,
                tok ''Labs'' [] True, tok [CHR 0x0A] [] False,
                tok ''Normal'' [] True, tok ''.'' [] False],
      ents = [],
      sections = None\<rparr>"

definition empty_doc :: doc where
  "empty_doc = \<lparr>tokens = [], ents = [], sections = None\<rparr>"

definition store_csv :: "(string, bool \<times> row list) dict csv_writer" where
  \<comment> \<open>a destination that can always be written: the file is stored under its path\<close>
  "store_csv path idx data fs = (None, AList.update path (idx, data) fs)"

section \<open>Predicates of the statements\<close>

text \<open>
  A closed section covers the tokens \<open>sec_start\<close> to \<open>sec_end\<close> inclusive. \<open>precedes a b\<close>
  says that \<open>a\<close> ends before \<open>b\<close> starts. \<open>seg_inv i\<close> is the invariant of the segmenter's
  loop before token \<open>i\<close>: the sections lie in order without overlap, all but the last one
  are closed, and all start before \<open>i\<close>.
\<close>

definition closed_ok :: "doc_section \<Rightarrow> bool" where
  "closed_ok s = (case sec_end s of Some e \<Rightarrow> int (sec_start s) \<le> e | None \<Rightarrow> False)"

definition precedes :: "doc_section \<Rightarrow> doc_section \<Rightarrow> bool" where
  "precedes a b = (case sec_end a of Some e \<Rightarrow> e < int (sec_start b) | None \<Rightarrow> False)"

definition seg_inv :: "nat \<Rightarrow> doc_section list \<Rightarrow> bool" where
  "seg_inv i secs =
     (sorted_wrt precedes secs \<and> list_all closed_ok (butlast secs)
      \<and> list_all (\<lambda>s. sec_start s < i) secs)"

definition sec_key :: "doc_section \<Rightarrow> string \<times> nat" where
  "sec_key s = (sec_title s, sec_start s)"

definition lower_keys :: "(string \<times> nat) list \<Rightarrow> bool" where
  "lower_keys ks = list_all (\<lambda>k. lower (fst k) = fst k) ks"

section \<open>Lower-casing\<close>

lemma lower_char_idem: "lower_char (lower_char c) = lower_char c"
proof (cases "65 \<le> (of_char c :: nat) \<and> (of_char c :: nat) \<le> 90")
  case True
  then have "(of_char (char_of (of_char c + 32 :: nat)) :: nat) = of_char c + 32"
    by (simp add: of_char_of)
  with True show ?thesis
    by (simp add: lower_char_def Let_def)
next
  case False
  then show ?thesis
    by (auto simp: lower_char_def Let_def)
qed

lemma lower_idem: "lower (lower s) = lower s"
  by (simp add: lower_def lower_char_idem)

section \<open>The detection map\<close>

lemma detect_fold_lookup:
  "map_of (fold (\<lambda>ent results. let key = lower (ent_text ent)
                                 in AList.update key (dict_get lexicon key 0) results) es acc) k
     = (if k \<in> set (map (\<lambda>ent. lower (ent_text ent)) es) then Some (dict_get lexicon k 0)
        else map_of acc k)"
  by (induction es arbitrary: acc) (auto simp: Let_def update_conv')

text \<open>
  C1 (as amended). The detection map has an entry for every entity term, lower-cased,
  and for nothing else: the value is the lexicon's when the term is a key of the lexicon
  and 0 when it is not.
\<close>

theorem detect_entry_for_every_entity:
  "map_of (detect lexicon d) k
     = (if k \<in> set (map (\<lambda>ent. lower (ent_text ent)) (ents d)) then Some (dict_get lexicon k 0)
        else None)"
  by (simp add: detect_def detect_fold_lookup)

text \<open>
  The entity \<^verbatim>\<open>headache\<close> is not in the lexicon and is recorded with the value 0.
\<close>

theorem detect_unknown_term_counterexample:
  "map_of lexicon_example ''headache'' = None
   \<and> ''headache'' \<in> set (dict_keys (detect lexicon_example headache_doc))
   \<and> map_of (detect lexicon_example headache_doc) ''headache'' = Some 0"
  by code_simp

section \<open>Key sets of the aggregator\<close>

lemma keys_grouped_append:
  "set (dict_keys (grouped_append grp v g)) = insert grp (set (dict_keys g))"
  by (simp add: grouped_append_def dict_keys_def dom_update)

lemma keys_tag_keywords:
  "set (dict_keys (tag_keywords det grp kws g)) \<subseteq> insert grp (set (dict_keys g))"
  unfolding tag_keywords_def
proof (induction kws arbitrary: g)
  case Nil
  show ?case by auto
next
  case (Cons kw kws)
  show ?case
  proof (cases "map_of det kw")
    case None
    with Cons.IH [of g] show ?thesis by simp
  next
    case (Some v)
    with Cons.IH [of "grouped_append grp v g"] show ?thesis
      by (auto simp: keys_grouped_append)
  qed
qed

lemma keys_tag_rules_fold:
  "set (dict_keys (fold (\<lambda>(grp, keywords) g. tag_keywords det grp keywords g) rules g0))
     \<subseteq> set (dict_keys rules) \<union> set (dict_keys g0)"
proof (induction rules arbitrary: g0)
  case Nil
  show ?case by simp
next
  case (Cons r rules)
  obtain grp kws where r: "r = (grp, kws)" by (cases r)
  from Cons.IH [of "tag_keywords det grp kws g0"] keys_tag_keywords [of det grp kws g0]
  show ?case by (auto simp: r dict_keys_def)
qed

lemma keys_tag_output_fold:
  "set (dict_keys (fold (\<lambda>(grp, vals) output. AList.update grp (tag_score vals) output) g out))
     = set (dict_keys g) \<union> set (dict_keys out)"
proof (induction g arbitrary: out)
  case Nil
  show ?case by (simp add: dict_keys_def)
next
  case (Cons p g)
  obtain grp vals where p: "p = (grp, vals)" by (cases p)
  show ?case
    by (simp add: p Cons.IH) (auto simp: dict_keys_def dom_update)
qed

text \<open>
  C9. Every key of the mapping returned by \<open>tag\<close> is a group name of the rule set: the
  aggregator never invents a group.
\<close>

theorem tag_keys_subset_rules:
  "set (dict_keys (tag rules detected_tokens)) \<subseteq> set (dict_keys rules)"
proof -
  have "set (dict_keys (tag rules detected_tokens)) = set (dict_keys (tag_grouped rules detected_tokens))"
    by (simp add: tag_def tag_output_def keys_tag_output_fold) (simp add: dict_keys_def)
  also have "\<dots> \<subseteq> set (dict_keys rules)"
    using keys_tag_rules_fold [of detected_tokens rules "[]"]
    by (simp add: tag_grouped_def dict_keys_def)
  finally show ?thesis .
qed

section \<open>Rounding to float64\<close>

























section \<open>Scores of the aggregator\<close>






















text \<open>
  C2 (the code at the failing input). With no detection the INFECTION group of the rule
  set has no entry in the output: the second loop of \<open>tag\<close> runs over \<open>grouped\<close>, which
  only holds the groups that collected a value, so its \<open>else\<close> branch is never taken.
\<close>

theorem tag_omits_group_without_detection:
  "''INFECTION'' \<in> set (dict_keys rules_example)
   \<and> tag rules_example [] = []
   \<and> map_of (tag rules_example []) ''INFECTION'' = None"
  by code_simp

section \<open>The record of a blank note\<close>

lemma summary_no_entities:
  "ents (nlp (note_text n)) = [] \<Longrightarrow>
     summary nlp lexicon rules n = fold (\<lambda>(grp, score) r. AList.update grp (Num score) r)
                                      (tag rules []) [(''patient_id'', Str (patient_id n))]"
  by (simp add: summary_def detect_def)

text \<open>
  C3 (the code at the failing input). For a note with empty text, annotated as the empty
  document, the run appends one record that carries the patient identifier and no score:
  the INFECTION group of the rule set is missing from it.
\<close>

theorem blank_note_record_has_no_scores:
  "phenotype_summaries (\<lambda>text. empty_doc) lexicon_example rules_example
     [\<lparr>patient_id = ''p1'', note_text = []\<rparr>]
     = [[(''patient_id'', Str ''p1'')]]"
  by code_simp

section \<open>The segmenter\<close>

subsection \<open>Documents without a header\<close>

lemma seg_loop_unchanged:
  "(\<And>j. j < length toks \<Longrightarrow> seg_step d (i + j) (toks ! j) secs = secs) \<Longrightarrow>
     seg_loop d i toks secs = secs"
proof (induction toks arbitrary: i)
  case Nil
  show ?case by simp
next
  case (Cons t toks)
  from Cons.prems [of 0] have step: "seg_step d i t secs = secs" by simp
  have "seg_loop d (Suc i) toks secs = secs"
  proof (rule Cons.IH)
    fix j assume "j < length toks"
    with Cons.prems [of "Suc j"] show "seg_step d (Suc i + j) (toks ! j) secs = secs" by simp
  qed
  with step show ?case by simp
qed

lemma seg_step_no_header:
  "\<not> (is_sent_start t \<and> pattern_match (lower (strip (sent_text d i)))) \<Longrightarrow>
     seg_step d i t secs = secs"
  by (auto simp: seg_step_def Let_def)

lemma segment_no_header:
  assumes "\<And>i. i < length (tokens d) \<Longrightarrow>
             \<not> (is_sent_start (tokens d ! i) \<and> pattern_match (lower (strip (sent_text d i))))"
  shows "segment d = []"
proof -
  have "seg_loop d 0 (tokens d) [] = []"
    by (rule seg_loop_unchanged) (simp add: seg_step_no_header assms)
  then show ?thesis by (simp add: segment_def close_section_def)
qed

text \<open>
  C7. When no sentence-initial line matches a recognised header, the segmenter attaches
  the empty section list, and the lookup of every title returns \<open>None\<close> without an error.
\<close>

theorem no_header_no_sections:
  assumes "\<forall>i < length (tokens d). is_sent_start (tokens d ! i)
             \<longrightarrow> \<not> pattern_match (lower (strip (sent_text d i)))"
  shows "sections (section_segmenter d) = Some []
       \<and> (\<forall>section_title. extract_section_text (section_segmenter d) section_title = Inr None)"
proof -
  have "segment d = []"
    by (rule segment_no_header) (use assms in auto)
  then show ?thesis
    by (simp add: section_segmenter_def extract_section_text_def)
qed

theorem no_header_no_sections_witness:
  "sections (section_segmenter headache_doc) = Some []
   \<and> extract_section_text (section_segmenter headache_doc) ''medications'' = Inr None"
proof -
  have "\<forall>i < length (tokens headache_doc). is_sent_start (tokens headache_doc ! i)
          \<longrightarrow> \<not> pattern_match (lower (strip (sent_text headache_doc i)))"
  proof (intro allI impI)
    fix i assume "i < length (tokens headache_doc)" and s: "is_sent_start (tokens headache_doc ! i)"
    then have "i \<in> {0, 1, 2, 3}" by (auto simp: headache_doc_def)
    with s have "i = 0" by (auto simp: headache_doc_def tok_def)
    moreover have "\<not> pattern_match (lower (strip (sent_text headache_doc 0)))"
      by code_simp
    ultimately show "\<not> pattern_match (lower (strip (sent_text headache_doc i)))"
      by simp
  qed
  from no_header_no_sections [OF this] show ?thesis by blast
qed

subsection \<open>Order and extent of the sections\<close>

lemma precedes_update_end [simp]: "precedes a (b\<lparr>sec_end := e\<rparr>) = precedes a b"
  by (cases "sec_end a") (simp_all add: precedes_def)

lemma seg_inv_append:
  assumes "seg_inv i secs"
  shows "seg_inv (Suc i) (close_section secs (int i - 1) @ [\<lparr>sec_title = t, sec_start = i, sec_end = None\<rparr>])"
proof (cases "secs = []")
  case True
  then show ?thesis by (simp add: seg_inv_def close_section_def)
next
  case False
  then obtain bs l where secs: "secs = bs @ [l]"
    by (metis append_butlast_last_id)
  let ?new = "\<lparr>sec_title = t, sec_start = i, sec_end = None\<rparr>"
  let ?l = "l\<lparr>sec_end := Some (int i - 1)\<rparr>"
  from assms secs have sorted_bs: "sorted_wrt precedes bs"
    and bs_l: "\<forall>a\<in>set bs. precedes a l"
    and closed_bs: "list_all closed_ok bs"
    and lt_bs: "list_all (\<lambda>s. sec_start s < i) bs"
    and lt_l: "sec_start l < i"
    by (auto simp: seg_inv_def sorted_wrt_append)
  have bs_new: "\<forall>a\<in>set bs. precedes a ?new"
  proof
    fix a assume "a \<in> set bs"
    with bs_l have "precedes a l" by blast
    with lt_l show "precedes a ?new"
      by (auto simp: precedes_def split: option.splits)
  qed
  have l_new: "precedes ?l ?new" by (simp add: precedes_def)
  have closed_l: "closed_ok ?l" using lt_l by (simp add: closed_ok_def)
  have "close_section secs (int i - 1) = bs @ [?l]"
    by (simp add: close_section_def secs)
  moreover have "sorted_wrt precedes ((bs @ [?l]) @ [?new])"
    using sorted_bs bs_l bs_new l_new by (auto simp: sorted_wrt_append)
  moreover have "list_all closed_ok (bs @ [?l])"
    using closed_bs closed_l by simp
  moreover have "list_all (\<lambda>s. sec_start s < Suc i) ((bs @ [?l]) @ [?new])"
    using lt_bs lt_l by (auto simp: list_all_iff)
  moreover have "butlast ((bs @ [?l]) @ [?new]) = bs @ [?l]"
    by (simp add: butlast_append)
  ultimately show ?thesis
    unfolding seg_inv_def by (simp only: simp_thms)
qed

lemma seg_inv_mono: "seg_inv i secs \<Longrightarrow> seg_inv (Suc i) secs"
  by (auto simp: seg_inv_def list_all_iff)

lemma seg_inv_step: "seg_inv i secs \<Longrightarrow> seg_inv (Suc i) (seg_step d i t secs)"
  by (simp add: seg_step_def Let_def seg_inv_append seg_inv_mono)

lemma seg_inv_loop: "seg_inv i secs \<Longrightarrow> seg_inv (i + length toks) (seg_loop d i toks secs)"
proof (induction toks arbitrary: i secs)
  case Nil
  then show ?case by simp
next
  case (Cons t toks)
  from Cons.IH [OF seg_inv_step [OF Cons.prems, of d t]] show ?case by simp
qed

lemma seg_inv_final: "seg_inv (length (tokens d)) (seg_loop d 0 (tokens d) [])"
  using seg_inv_loop [of 0 "[]" "tokens d" d] by (simp add: seg_inv_def)

lemma segment_shape:
  "sorted_wrt precedes (segment d)
   \<and> (\<forall>s \<in> set (segment d). closed_ok s)
   \<and> (segment d \<noteq> [] \<longrightarrow> sec_end (last (segment d)) = Some (int (length (tokens d)) - 1))"
proof (cases "seg_loop d 0 (tokens d) [] = []")
  case True
  then show ?thesis by (simp add: segment_def close_section_def)
next
  case False
  let ?n = "length (tokens d)"
  from False obtain bs l where secs: "seg_loop d 0 (tokens d) [] = bs @ [l]"
    by (metis append_butlast_last_id)
  let ?l = "l\<lparr>sec_end := Some (int ?n - 1)\<rparr>"
  have seg: "segment d = bs @ [?l]"
    by (simp add: segment_def close_section_def secs)
  from seg_inv_final [of d] secs have sorted_bs: "sorted_wrt precedes bs"
    and bs_l: "\<forall>a\<in>set bs. precedes a l"
    and closed_bs: "\<forall>s\<in>set bs. closed_ok s"
    and lt_l: "sec_start l < ?n"
    by (auto simp: seg_inv_def sorted_wrt_append list_all_iff)
  have prec: "sorted_wrt precedes (segment d)"
    using sorted_bs bs_l by (simp add: seg sorted_wrt_append)
  have closed: "\<forall>s \<in> set (segment d). closed_ok s"
    using closed_bs lt_l by (auto simp: seg closed_ok_def)
  have "sec_end (last (segment d)) = Some (int ?n - 1)"
    by (simp add: seg)
  with prec closed show ?thesis by blast
qed

text \<open>
  C6. The sections attached by the segmenter are in document order, no two of them
  overlap (each ends before every later one starts), each is closed with its end at or
  after its start, and the last one ends at the final token of the document.
\<close>

theorem sections_ordered_disjoint:
  "sections (section_segmenter d) = Some (segment d)
   \<and> sorted_wrt (\<lambda>a b. sec_start a < sec_start b) (segment d)
   \<and> sorted_wrt precedes (segment d)
   \<and> (\<forall>s \<in> set (segment d). closed_ok s)
   \<and> (segment d \<noteq> [] \<longrightarrow> sec_end (last (segment d)) = Some (int (length (tokens d)) - 1))"
proof -
  note shape = segment_shape [of d]
  have "precedes a b \<Longrightarrow> closed_ok a \<Longrightarrow> sec_start a < sec_start b" for a b
    by (auto simp: precedes_def closed_ok_def split: option.splits)
  with shape have "\<And>a b. a \<in> set (segment d) \<Longrightarrow> b \<in> set (segment d) \<Longrightarrow> precedes a b
      \<Longrightarrow> sec_start a < sec_start b"
    by blast
  with shape have "sorted_wrt (\<lambda>a b. sec_start a < sec_start b) (segment d)"
    by (blast intro: sorted_wrt_mono_rel [rotated])
  moreover have "sections (section_segmenter d) = Some (segment d)"
    by (simp add: section_segmenter_def)
  ultimately show ?thesis using shape by blast
qed

theorem sections_ordered_disjoint_witness:
  "segment medications_doc \<noteq> []
   \<and> map sec_start (segment medications_doc) = [0, 7]
   \<and> sec_end (last (segment medications_doc)) = Some 10
   \<and> sorted_wrt precedes (segment medications_doc)
   \<and> list_all closed_ok (segment medications_doc)"
proof -
  have ne: "segment medications_doc \<noteq> []" and st: "map sec_start (segment medications_doc) = [0, 7]"
    by code_simp+
  have len: "int (length (tokens medications_doc)) - 1 = 10"
    by (simp add: medications_doc_def)
  from sections_ordered_disjoint [of medications_doc] ne st len show ?thesis
    by (simp add: list_all_iff)
qed

subsection \<open>Titles and lookup\<close>

lemma sec_key_close_section: "map sec_key (close_section secs e) = map sec_key secs"
proof (cases "secs = []")
  case True
  then show ?thesis by (simp add: close_section_def)
next
  case False
  then obtain bs l where "secs = bs @ [l]" by (metis append_butlast_last_id)
  then show ?thesis by (simp add: close_section_def sec_key_def)
qed

lemma seg_step_header:
  "is_sent_start t \<Longrightarrow> pattern_match (lower (strip (sent_text d i))) \<Longrightarrow>
     map sec_key (seg_step d i t secs)
       = map sec_key secs @ [(lower (strip (sent_text d i)), i)]"
  by (simp add: seg_step_def Let_def sec_key_close_section) (simp add: sec_key_def)

lemma seg_step_keeps: "set (map sec_key secs) \<subseteq> set (map sec_key (seg_step d i t secs))"
proof -
  have "set (map sec_key secs) = set (map sec_key (close_section secs e))" for e
    by (simp only: sec_key_close_section)
  then show ?thesis
    by (auto simp: seg_step_def Let_def simp del: set_map)
qed

lemma seg_loop_keeps: "set (map sec_key secs) \<subseteq> set (map sec_key (seg_loop d i toks secs))"
proof (induction toks arbitrary: i secs)
  case Nil
  show ?case by simp
next
  case (Cons t toks)
  from seg_step_keeps [of secs d i t] Cons.IH [of "seg_step d i t secs" "Suc i"]
  show ?case by (simp del: set_map)
qed

lemma seg_loop_header:
  "j < length toks \<Longrightarrow> is_sent_start (toks ! j) \<Longrightarrow>
   pattern_match (lower (strip (sent_text d (i + j)))) \<Longrightarrow>
     (lower (strip (sent_text d (i + j))), i + j) \<in> set (map sec_key (seg_loop d i toks secs))"
proof (induction toks arbitrary: i j secs)
  case Nil
  then show ?case by simp
next
  case (Cons t toks)
  show ?case
  proof (cases j)
    case 0
    with Cons.prems have "is_sent_start t" and "pattern_match (lower (strip (sent_text d i)))"
      by simp_all
    from seg_step_header [OF this, of secs]
    have "(lower (strip (sent_text d i)), i) \<in> set (map sec_key (seg_step d i t secs))"
      by simp
    with seg_loop_keeps [of "seg_step d i t secs" d "Suc i" toks] show ?thesis
      using 0 by (simp del: set_map) blast
  next
    case (Suc j')
    with Cons.prems have "j' < length toks" and "is_sent_start (toks ! j')"
      and "pattern_match (lower (strip (sent_text d (Suc i + j'))))"
      by simp_all
    from Cons.IH [OF this, of "seg_step d i t secs"] show ?thesis
      using Suc by simp
  qed
qed

lemma segment_header:
  assumes "i < length (tokens d)" and "is_sent_start (tokens d ! i)"
    and "pattern_match (lower (strip (sent_text d i)))"
  shows "\<exists>sec \<in> set (segment d). sec_title sec = lower (strip (sent_text d i)) \<and> sec_start sec = i"
proof -
  from seg_loop_header [of i "tokens d" d 0 "[]"] assms
  have "(lower (strip (sent_text d i)), i) \<in> set (map sec_key (seg_loop d 0 (tokens d) []))"
    by simp
  then have "(lower (strip (sent_text d i)), i) \<in> set (map sec_key (segment d))"
    by (simp only: segment_def sec_key_close_section)
  then show ?thesis by (auto simp: sec_key_def)
qed

lemma lower_keys_step:
  "lower_keys (map sec_key secs) \<Longrightarrow> lower_keys (map sec_key (seg_step d i t secs))"
proof (cases "is_sent_start t \<and> pattern_match (lower (strip (sent_text d i)))")
  case True
  assume "lower_keys (map sec_key secs)"
  with True show ?thesis
    by (simp add: seg_step_header lower_keys_def lower_idem)
next
  case False
  assume "lower_keys (map sec_key secs)"
  with False show ?thesis
    by (auto simp: seg_step_def Let_def)
qed

lemma lower_keys_loop:
  "lower_keys (map sec_key secs) \<Longrightarrow> lower_keys (map sec_key (seg_loop d i toks secs))"
  by (induction toks arbitrary: i secs) (simp_all add: lower_keys_step)

lemma segment_titles_lower: "s \<in> set (segment d) \<Longrightarrow> lower (sec_title s) = sec_title s"
proof -
  have "lower_keys (map sec_key (seg_loop d 0 (tokens d) []))"
    by (rule lower_keys_loop) (simp add: lower_keys_def)
  then have "lower_keys (map sec_key (segment d))"
    by (simp only: segment_def sec_key_close_section)
  moreover assume "s \<in> set (segment d)"
  ultimately show ?thesis
    by (auto simp: lower_keys_def list_all_iff sec_key_def)
qed

lemma segment_closed:
  assumes "s \<in> set (segment d)"
  shows "\<exists>e. sec_end s = Some e"
proof -
  from segment_shape [of d] assms have "closed_ok s" by blast
  then show ?thesis by (cases "sec_end s") (simp_all add: closed_ok_def)
qed

lemma extract_found:
  assumes "sec \<in> set (segment d)" and "lower (sec_title sec) = lower q"
  shows "\<exists>sec' e. find (\<lambda>s. lower (sec_title s) = lower q) (segment d) = Some sec'
           \<and> sec_end sec' = Some e
           \<and> extract_section_text (section_segmenter d) q
               = Inr (Some (span_text (doc_slice d (int (sec_start sec')) (e + 1))))"
proof -
  have "find (\<lambda>s. lower (sec_title s) = lower q) (segment d) \<noteq> None"
    unfolding find_None_iff using assms by blast
  then obtain sec' where f: "find (\<lambda>s. lower (sec_title s) = lower q) (segment d) = Some sec'"
    by blast
  then obtain k where "k < length (segment d)" and "sec' = segment d ! k"
    unfolding find_Some_iff by blast
  then have "sec' \<in> set (segment d)"
    by simp
  then obtain e where e: "sec_end sec' = Some e"
    using segment_closed by blast
  have "tokens (section_segmenter d) = tokens d"
    by (simp add: section_segmenter_def)
  then have slice: "doc_slice (section_segmenter d) a b = doc_slice d a b" for a b
    by (simp only: doc_slice_def)
  have secs: "sections (section_segmenter d) = Some (segment d)"
    by (simp add: section_segmenter_def)
  have "extract_section_text (section_segmenter d) q
          = Inr (Some (span_text (doc_slice d (int (sec_start sec')) (e + 1))))"
    unfolding extract_section_text_def by (simp only: secs f e slice option.case)
  with f e show ?thesis by blast
qed

text \<open>
  C4 (as amended). When a sentence-initial line is a recognised header followed by a
  colon, the section that starts there has the normalised line as its title, colon
  included, and the lookup's comparison of that title with the colon-free header fails.
  The lookup with the title, colon included and in any case, finds the first section so
  titled and returns its token text.
\<close>

theorem header_title_keeps_colon:
  assumes "i < length (tokens d)" and "is_sent_start (tokens d ! i)"
    and "h \<in> set headers" and "lower (strip (sent_text d i)) = h @ '':''"
    and "lower q = h @ '':''"
  shows "(\<exists>sec \<in> set (segment d). sec_start sec = i \<and> sec_title sec = h @ '':''
             \<and> lower (sec_title sec) \<noteq> lower h)
       \<and> (\<exists>sec' e. find (\<lambda>s. lower (sec_title s) = lower q) (segment d) = Some sec'
             \<and> sec_title sec' = h @ '':'' \<and> sec_end sec' = Some e
             \<and> extract_section_text (section_segmenter d) q
                 = Inr (Some (span_text (doc_slice d (int (sec_start sec')) (e + 1)))))"
proof -
  have low: "lower (h @ '':'') = h @ '':''"
    using lower_idem [of q] assms(5) by simp
  with assms(3) have "pattern_match (h @ '':'')"
    by (auto simp: pattern_match_def Let_def list_ex_iff)
  with assms(4) have "pattern_match (lower (strip (sent_text d i)))"
    by simp
  from segment_header [OF assms(1,2) this] assms(4)
  obtain sec where sec: "sec \<in> set (segment d)" "sec_start sec = i" "sec_title sec = h @ '':''"
    by auto
  have "length (lower (h @ '':'')) \<noteq> length (lower h)"
    by (simp add: lower_def)
  then have "lower (h @ '':'') \<noteq> lower h"
    by auto
  with sec have first: "\<exists>sec \<in> set (segment d). sec_start sec = i \<and> sec_title sec = h @ '':''
                          \<and> lower (sec_title sec) \<noteq> lower h"
    by auto
  from sec low assms(5) have "lower (sec_title sec) = lower q" by simp
  from extract_found [OF sec(1) this]
  obtain sec' e where found: "find (\<lambda>s. lower (sec_title s) = lower q) (segment d) = Some sec'"
      "sec_end sec' = Some e"
      "extract_section_text (section_segmenter d) q
                 = Inr (Some (span_text (doc_slice d (int (sec_start sec')) (e + 1))))"
    by blast
  from found(1) have "lower (sec_title sec') = h @ '':''"
    using assms(5) by (auto simp: find_Some_iff)
  moreover have "lower (sec_title sec') = sec_title sec'"
  proof -
    from found(1) have "sec' \<in> set (segment d)" by (auto simp: find_Some_iff)
    then show ?thesis by (rule segment_titles_lower)
  qed
  ultimately have "sec_title sec' = h @ '':''" by simp
  with found first show ?thesis by blast
qed

theorem header_title_keeps_colon_witness:
  "is_sent_start (tokens medications_doc ! 0)
   \<and> lower (strip (sent_text medications_doc 0)) = ''medications'' @ '':''
   \<and> (\<exists>txt. extract_section_text (section_segmenter medications_doc) ''Medications:''
               = Inr (Some txt))"
proof -
  have a: "0 < length (tokens medications_doc)"
    and b: "is_sent_start (tokens medications_doc ! 0)"
    and c: "''medications'' \<in> set headers"
    and e: "lower (strip (sent_text medications_doc 0)) = ''medications'' @ '':''"
    and f: "lower ''Medications:'' = ''medications'' @ '':''"
    by code_simp+
  from header_title_keeps_colon [OF a b c e f] b e show ?thesis
    by blast
qed

text \<open>
  The first line of the example is \<^verbatim>\<open>Medications:\<close>. Its section is titled
  \<^verbatim>\<open>medications:\<close>, and the lookup of \<^verbatim>\<open>medications\<close> finds nothing.
\<close>

theorem header_lookup_without_colon_counterexample:
  "is_sent_start (tokens medications_doc ! 0)
   \<and> lower (strip (sent_text medications_doc 0)) = ''medications'' @ '':''
   \<and> map sec_title (segment medications_doc) = [''medications:'', ''labs'']
   \<and> extract_section_text (section_segmenter medications_doc) ''medications'' = Inr None"
  by code_simp

section \<open>The writer\<close>

text \<open>
  C8 (as amended). \<open>write\<close> returns without an error exactly when the sequence is not
  empty, the frame built from it is not empty, the file format is \<^verbatim>\<open>csv\<close> and \<open>to_csv\<close>
  raises nothing; an empty sequence raises \<^verbatim>\<open>ValueError\<close> and leaves the file system
  as it was.
\<close>

theorem write_succeeds_iff:
  "(fst (dbwriter_write to_csv w data fs) = None)
     = (data \<noteq> [] \<and> \<not> df_empty data \<and> file_format w = ''csv''
        \<and> fst (to_csv (output_path w) (index w) data fs) = None)
   \<and> dbwriter_write to_csv w [] fs = (Some ValueError, fs)"
  by (simp add: dbwriter_write_def)

text \<open>
  One record, a destination that can be written, and the format \<^verbatim>\<open>parquet\<close>: \<open>write\<close>
  raises.
\<close>

theorem write_unsupported_format_counterexample:
  "[[(''patient_id'', Str ''p1''), (''INFECTION'', Num 1)]] \<noteq> []
   \<and> fst (store_csv ''out.parquet'' False [[(''patient_id'', Str ''p1''), (''INFECTION'', Num 1)]] [])
       = None
   \<and> dbwriter_write store_csv
        \<lparr>output_path = ''out.parquet'', file_format = ''parquet'', index = False, overwrite = True\<rparr>
        [[(''patient_id'', Str ''p1''), (''INFECTION'', Num 1)]] []
       = (Some NotImplementedError, [])"
  by (simp add: dbwriter_write_def df_empty_def dict_keys_def store_csv_def)

text \<open>
  C10 (as amended). For a non-empty sequence and a file format other than \<^verbatim>\<open>csv\<close>,
  \<open>write\<close> raises and leaves the file system as it was, without a call of \<open>to_csv\<close>: the
  error is \<^verbatim>\<open>ValueError\<close> when every record is an empty dictionary and
  \<^verbatim>\<open>NotImplementedError\<close> otherwise.
\<close>

theorem write_other_format_raises:
  assumes "data \<noteq> []" and "file_format w \<noteq> ''csv''"
  shows "dbwriter_write to_csv w data fs
           = (Some (if df_empty data then ValueError else NotImplementedError), fs)"
  using assms by (simp add: dbwriter_write_def)

theorem write_other_format_raises_witness:
  "[[(''patient_id'', Str ''p1'')]] \<noteq> []
   \<and> file_format \<lparr>output_path = ''out.parquet'', file_format = ''parquet'', index = False,
                   overwrite = True\<rparr> \<noteq> ''csv''
   \<and> dbwriter_write store_csv
        \<lparr>output_path = ''out.parquet'', file_format = ''parquet'', index = False, overwrite = True\<rparr>
        [[(''patient_id'', Str ''p1'')]] []
       = (Some NotImplementedError, [])"
proof -
  let ?w = "\<lparr>output_path = ''out.parquet'', file_format = ''parquet'', index = False,
             overwrite = True\<rparr>"
  have a: "[[(''patient_id'', Str ''p1'')]] \<noteq> []" by simp
  have b: "file_format ?w \<noteq> ''csv''" by simp
  have c: "\<not> df_empty [[(''patient_id'', Str ''p1'')]]"
    by (simp add: df_empty_def dict_keys_def)
  from write_other_format_raises [OF a b, of store_csv "[]"] a b c show ?thesis
    by simp
qed

text \<open>
  A sequence of one empty dictionary and the format \<^verbatim>\<open>parquet\<close>: the error is
  \<^verbatim>\<open>ValueError\<close>, raised for the empty frame before the format is looked at.
\<close>

theorem write_empty_frame_counterexample:
  "[[]] \<noteq> ([] :: row list)
   \<and> dbwriter_write store_csv
        \<lparr>output_path = ''out.parquet'', file_format = ''parquet'', index = False, overwrite = True\<rparr>
        [[]] []
       = (Some ValueError, [])"
  by (simp add: dbwriter_write_def df_empty_def dict_keys_def)

end
